theory Spec2Isabelle
  imports Main
begin

section \<open>Data model of the drift bottle service\<close>

text \<open>
  The service of \<^verbatim>\<open>api_service.py\<close> is a request layer over a MongoDB database with two
  collections: the bottle collection and the collection \<^verbatim>\<open>counters\<close>. The pydantic
  models are records. A document of the bottle collection is the dictionary that
  \<^verbatim>\<open>add_bottle\<close> builds (the fields of \<^verbatim>\<open>BottleIn\<close> plus \<^verbatim>\<open>bottle_id\<close>, \<^verbatim>\<open>picked\<close> and
  \<^verbatim>\<open>timestamp\<close>) together with the key \<^verbatim>\<open>_id\<close> that the store adds on insertion; an
  \<^verbatim>\<open>ObjectId\<close> is a natural number here. The collection is assumed to hold only documents
  of this shape, which is what \<^verbatim>\<open>add_bottle\<close> writes.
\<close>

record Image =
  image_type :: string
  image_data :: string

record BottleIn =
  in_content :: string
  in_images :: "Image list"
  in_sender :: string
  in_sender_id :: string
  in_poke :: bool

text \<open>The dictionary \<^verbatim>\<open>bottle_data\<close> before it is inserted: no \<^verbatim>\<open>_id\<close> yet.\<close>

record bottle_data =
  data_content :: string
  data_images :: "Image list"
  data_sender :: string
  data_sender_id :: string
  data_poke :: bool
  data_bottle_id :: int
  data_picked :: bool
  data_timestamp :: string

text \<open>A stored document; \<open>doc_id\<close> is the key \<^verbatim>\<open>_id\<close>.\<close>

record bottle_doc =
  doc_id :: nat
  content :: string
  images :: "Image list"
  sender :: string
  sender_id :: string
  poke :: bool
  bottle_id :: int
  picked :: bool
  timestamp :: string

record BottleOut =
  out_bottle_id :: int
  out_content :: string
  out_images :: "Image list"
  out_sender :: string
  out_sender_id :: string
  out_picked :: bool
  out_timestamp :: string
  out_poke :: bool

record BottleCountOut =
  total_active_bottles :: int

text \<open>
  The database: the documents of \<^verbatim>\<open>db["counters"]\<close>, keyed by \<^verbatim>\<open>_id\<close> and holding the
  field \<^verbatim>\<open>seq\<close>, and the documents of the bottle collection in insertion order.
\<close>

record store =
  counters :: "string \<rightharpoonup> int"
  bottles :: "bottle_doc list"

text \<open>
  An exception raised by the driver, and the exception a handler raises, with its status
  code and its detail. A store call that raises leaves the database as it was.
  \<open>DuplicateKeyError\<close> carries the \<^verbatim>\<open>_id\<close> the store refused, \<open>InvalidName\<close> its message;
  \<open>TypeError\<close> is what the driver raises for a name that is not a string.
\<close>

datatype store_error = StoreUnavailable | DuplicateKeyError nat | TypeError | InvalidName string

datatype http_error = HTTPException nat string

text \<open>
  The text of an exception, as \<^verbatim>\<open>f"{e}"\<close> gives it. The text of a duplicate key error names
  the key; the text of a call that could not be carried out names no document. An
  \<^verbatim>\<open>ObjectId\<close> is printed in decimal here.
\<close>

fun decimal :: "nat \<Rightarrow> string" where
  "decimal n =
     (if n < 10 then [''0123456789'' ! n]
      else decimal (n div 10) @ [''0123456789'' ! (n mod 10)])"

declare decimal.simps [simp del]

definition ObjectId_repr :: "nat \<Rightarrow> string" where
  "ObjectId_repr oid = ''ObjectId('' @ decimal oid @ '')''"

fun exception_text :: "store_error \<Rightarrow> string" where
  "exception_text StoreUnavailable = ''store unavailable''"
| "exception_text (DuplicateKeyError oid) =
     ''E11000 duplicate key error index: _id_ dup key: _id: '' @ ObjectId_repr oid"
| "exception_text TypeError = ''name must be an instance of str''"
| "exception_text (InvalidName msg) = msg"



definition HTTP_404_NOT_FOUND :: nat where
  "HTTP_404_NOT_FOUND = 404"

definition HTTP_500_INTERNAL_SERVER_ERROR :: nat where
  "HTTP_500_INTERNAL_SERVER_ERROR = 500"

section \<open>Configuration check at module load\<close>

text \<open>
  \<^verbatim>\<open>os.getenv\<close> gives \<^verbatim>\<open>None\<close> for a variable that is not set; \<^verbatim>\<open>not x\<close> holds for
  \<^verbatim>\<open>None\<close> and for the empty string.
\<close>

datatype config_error = ValueError string

record settings =
  MONGO_URI :: "string option"
  DATABASE_NAME :: "string option"
  COLLECTION_NAME :: "string option"

definition MONGO_URI_not_set :: string where
  "MONGO_URI_not_set =
     ''MONGO_URI environment variable is not set. Please set it in .env or your deployment environment.''"

definition DATABASE_NAME_not_set :: string where
  "DATABASE_NAME_not_set =
     ''DATABASE_NAME environment variable is not set. Please set it in .env or your deployment environment.''"

definition py_not :: "string option \<Rightarrow> bool" where
  "py_not x = (case x of None \<Rightarrow> True | Some s \<Rightarrow> s = [])"

definition module_load :: "settings \<Rightarrow> config_error + settings" where
  "module_load env =
     (if py_not (MONGO_URI env) then Inl (ValueError MONGO_URI_not_set)
      else if py_not (DATABASE_NAME env) then Inl (ValueError DATABASE_NAME_not_set)
      else Inr env)"

section \<open>Start of the process\<close>

text \<open>
  \<^verbatim>\<open>startup_db_client\<close> runs when the server starts. \<^verbatim>\<open>client[name]\<close> and \<^verbatim>\<open>db[name]\<close> build
  the driver's database and collection objects, whose constructors raise \<^verbatim>\<open>TypeError\<close> for a
  name that is not a string and \<^verbatim>\<open>InvalidName\<close> for an empty name; they refuse some other
  names too, which the environment decides here, as it decides whether creating the client
  or the \<^verbatim>\<open>ping\<close> raises. Every exception becomes an \<^verbatim>\<open>HTTPException\<close> raised from the
  startup hook.
\<close>

record startup_env =
  client_raises :: bool
  database_refused :: bool
  collection_refused :: bool
  ping_raises :: bool

definition Database :: "bool \<Rightarrow> string option \<Rightarrow> store_error + string" where
  "Database refused name =
     (case name of
        None \<Rightarrow> Inl TypeError
      | Some s \<Rightarrow>
          if s = [] then Inl (InvalidName ''database name cannot be the empty string'')
          else if refused then Inl (InvalidName ''database names cannot contain the character'')
          else Inr s)"

definition Collection :: "bool \<Rightarrow> string option \<Rightarrow> store_error + string" where
  "Collection refused name =
     (case name of
        None \<Rightarrow> Inl TypeError
      | Some s \<Rightarrow>
          if s = [] then Inl (InvalidName ''collection names cannot be empty'')
          else if refused then Inl (InvalidName ''collection names must not contain'')
          else Inr s)"

definition startup_failed :: "store_error \<Rightarrow> http_error" where
  "startup_failed e =
     HTTPException HTTP_500_INTERNAL_SERVER_ERROR
       (''Failed to connect to database on startup: '' @ exception_text e)"

definition startup_db_client :: "startup_env \<Rightarrow> settings \<Rightarrow> http_error + string \<times> string" where
  "startup_db_client env s =
     (if client_raises env then Inl (startup_failed StoreUnavailable)
      else case Database (database_refused env) (DATABASE_NAME s) of
        Inl e \<Rightarrow> Inl (startup_failed e)
      | Inr db \<Rightarrow>
          (case Collection (collection_refused env) (COLLECTION_NAME s) of
             Inl e \<Rightarrow> Inl (startup_failed e)
           | Inr bottles_collection \<Rightarrow>
               if ping_raises env then Inl (startup_failed StoreUnavailable)
               else Inr (db, bottles_collection)))"

text \<open>
  The process: the module is loaded, then the server runs the startup hook and serves only
  when the hook has returned. An exception at either step ends the process.
\<close>

datatype fatal = ModuleLoadFailed config_error | StartupFailed http_error

definition start_process :: "startup_env \<Rightarrow> settings \<Rightarrow> fatal + string \<times> string" where
  "start_process env s =
     (case module_load s of
        Inl e \<Rightarrow> Inl (ModuleLoadFailed e)
      | Inr s1 \<Rightarrow>
          (case startup_db_client env s1 of
             Inl h \<Rightarrow> Inl (StartupFailed h)
           | Inr handles \<Rightarrow> Inr handles))"

section \<open>The calls to the store\<close>

text \<open>
  Each call takes what the environment decides: whether the call raises, the \<^verbatim>\<open>ObjectId\<close>
  the driver generates, the draw of \<^verbatim>\<open>$sample\<close>.
\<close>

text \<open>
  \<^verbatim>\<open>find_one_and_update({'_id': name}, {'$inc': {'seq': 1}}, upsert=True,
  return_document=AFTER)\<close> and the read of \<^verbatim>\<open>seq\<close>: one atomic call.
\<close>

definition get_next_sequence_value :: "bool \<Rightarrow> string \<Rightarrow> store \<Rightarrow> (store_error + int) \<times> store" where
  "get_next_sequence_value raises sequence_name st =
     (if raises then (Inl StoreUnavailable, st)
      else let seq = (case counters st sequence_name of None \<Rightarrow> 1 | Some n \<Rightarrow> n + 1)
           in (Inr seq, st\<lparr>counters := (counters st)(sequence_name \<mapsto> seq)\<rparr>))"

text \<open>
  \<^verbatim>\<open>insert_one\<close>: the driver adds \<^verbatim>\<open>_id\<close> to the dictionary; the store refuses an
  \<^verbatim>\<open>_id\<close> it already holds. \<open>None\<close> is a call that raises before anything is written.
\<close>

definition with_id :: "nat \<Rightarrow> bottle_data \<Rightarrow> bottle_doc" where
  "with_id oid b =
     \<lparr>doc_id = oid, content = data_content b, images = data_images b,
      sender = data_sender b, sender_id = data_sender_id b, poke = data_poke b,
      bottle_id = data_bottle_id b, picked = data_picked b,
      timestamp = data_timestamp b\<rparr>"

definition insert_one :: "nat option \<Rightarrow> bottle_data \<Rightarrow> store \<Rightarrow> (store_error + bottle_doc) \<times> store" where
  "insert_one generated b st =
     (case generated of
        None \<Rightarrow> (Inl StoreUnavailable, st)
      | Some oid \<Rightarrow>
          if oid \<in> set (map doc_id (bottles st)) then (Inl (DuplicateKeyError oid), st)
          else (Inr (with_id oid b), st\<lparr>bottles := bottles st @ [with_id oid b]\<rparr>))"

text \<open>
  The pipeline \<^verbatim>\<open>$match {picked: False, sender_id: {$ne: sender_id}}\<close>, then
  \<^verbatim>\<open>$sample {size: 1}\<close>, read with \<^verbatim>\<open>to_list(length=1)\<close>. The draw is a number chosen by
  the environment, taken modulo the number of matching documents.
\<close>

definition match :: "string \<Rightarrow> bottle_doc \<Rightarrow> bool" where
  "match sid d = (picked d = False \<and> sender_id d \<noteq> sid)"

definition sample :: "nat \<Rightarrow> 'a list \<Rightarrow> 'a list" where
  "sample draw xs = (if xs = [] then [] else [xs ! (draw mod length xs)])"

definition aggregate :: "bool \<Rightarrow> nat \<Rightarrow> string \<Rightarrow> store \<Rightarrow> store_error + bottle_doc list" where
  "aggregate raises draw sid st =
     (if raises then Inl StoreUnavailable
      else Inr (sample draw (filter (match sid) (bottles st))))"

text \<open>
  \<^verbatim>\<open>update_one({"_id": oid}, {"$set": {"picked": True}})\<close>: the first document with that
  \<^verbatim>\<open>_id\<close> is updated; a call that matches no document does not raise.
\<close>

fun set_picked :: "nat \<Rightarrow> bottle_doc list \<Rightarrow> bottle_doc list" where
  "set_picked oid [] = []"
| "set_picked oid (d # ds) =
     (if doc_id d = oid then d\<lparr>picked := True\<rparr> # ds else d # set_picked oid ds)"

definition update_one :: "bool \<Rightarrow> nat \<Rightarrow> store \<Rightarrow> (store_error + unit) \<times> store" where
  "update_one raises oid st =
     (if raises then (Inl StoreUnavailable, st)
      else (Inr (), st\<lparr>bottles := set_picked oid (bottles st)\<rparr>))"

text \<open>\<^verbatim>\<open>count_documents({"picked": False})\<close>.\<close>

definition count_documents :: "bool \<Rightarrow> store \<Rightarrow> store_error + nat" where
  "count_documents raises st =
     (if raises then Inl StoreUnavailable
      else Inr (length (filter (\<lambda>d. picked d = False) (bottles st))))"

section \<open>The response model\<close>

text \<open>
  \<^verbatim>\<open>BottleOut.from_mongo_dict\<close> is \<^verbatim>\<open>cls(**data)\<close>: the declared fields are read from the
  dictionary and any other key, \<^verbatim>\<open>_id\<close> among them, is dropped.
\<close>

definition from_mongo_dict :: "bottle_doc \<Rightarrow> BottleOut" where
  "from_mongo_dict d =
     \<lparr>out_bottle_id = bottle_id d, out_content = content d, out_images = images d,
      out_sender = sender d, out_sender_id = sender_id d, out_picked = picked d,
      out_timestamp = timestamp d, out_poke = poke d\<rparr>"

text \<open>The body of a response, as the keys and values the framework serialises.\<close>

datatype json = JInt int | JStr string | JBool bool | JList "json list" | JObj "(string \<times> json) list"





definition read_root :: "(string \<times> json) list" where
  "read_root = [(''message'', JStr ''Welcome to the Drift Bottle Core API!'')]"

section \<open>The request handlers\<close>

text \<open>What the environment decides during one \<^verbatim>\<open>add_bottle\<close>.\<close>

record add_env =
  seq_raises :: bool
  now :: string
  generated_id :: "nat option"

definition new_bottle_data :: "BottleIn \<Rightarrow> int \<Rightarrow> string \<Rightarrow> bottle_data" where
  "new_bottle_data bottle_in new_id ts =
     \<lparr>data_content = in_content bottle_in, data_images = in_images bottle_in,
      data_sender = in_sender bottle_in, data_sender_id = in_sender_id bottle_in,
      data_poke = in_poke bottle_in, data_bottle_id = new_id, data_picked = False,
      data_timestamp = ts\<rparr>"

definition add_bottle :: "add_env \<Rightarrow> BottleIn \<Rightarrow> store \<Rightarrow> (http_error + BottleOut) \<times> store" where
  "add_bottle env bottle_in st =
     (case get_next_sequence_value (seq_raises env) ''bottle_id'' st of
        (Inl e, st1) \<Rightarrow>
          (Inl (HTTPException HTTP_500_INTERNAL_SERVER_ERROR
                 (''Internal server error while adding bottle: '' @ exception_text e)), st1)
      | (Inr new_id, st1) \<Rightarrow>
          (case insert_one (generated_id env) (new_bottle_data bottle_in new_id (now env)) st1 of
             (Inl e, st2) \<Rightarrow>
               (Inl (HTTPException HTTP_500_INTERNAL_SERVER_ERROR
                      (''Internal server error while adding bottle: '' @ exception_text e)), st2)
           | (Inr d, st2) \<Rightarrow> (Inr (from_mongo_dict d), st2)))"

text \<open>
  What the environment decides during one \<^verbatim>\<open>pick_random_bottle\<close>. The handler makes two
  separate calls to the store, so it is written in two parts: the sampling (up to
  \<^verbatim>\<open>bottle_doc = bottles[0]\<close>) and the marking (from \<^verbatim>\<open>update_one\<close> on). Another request
  may run between the two.
\<close>

record pick_env =
  aggregate_raises :: bool
  draw :: nat
  update_raises :: bool

definition pick_sample :: "pick_env \<Rightarrow> string \<Rightarrow> store \<Rightarrow> http_error + bottle_doc" where
  "pick_sample env sid st =
     (case aggregate (aggregate_raises env) (draw env) sid st of
        Inl e \<Rightarrow>
          Inl (HTTPException HTTP_500_INTERNAL_SERVER_ERROR
                (''Internal server error while picking bottle: '' @ exception_text e))
      | Inr [] \<Rightarrow> Inl (HTTPException HTTP_404_NOT_FOUND ''No available bottles to pick.'')
      | Inr (d # ds) \<Rightarrow> Inr d)"

definition pick_mark :: "pick_env \<Rightarrow> bottle_doc \<Rightarrow> store \<Rightarrow> (http_error + BottleOut) \<times> store" where
  "pick_mark env d st =
     (case update_one (update_raises env) (doc_id d) st of
        (Inl e, st1) \<Rightarrow>
          (Inl (HTTPException HTTP_500_INTERNAL_SERVER_ERROR
                 (''Internal server error while picking bottle: '' @ exception_text e)), st1)
      | (Inr u, st1) \<Rightarrow> (Inr (from_mongo_dict d), st1))"

definition pick_random_bottle :: "pick_env \<Rightarrow> string \<Rightarrow> store \<Rightarrow> (http_error + BottleOut) \<times> store" where
  "pick_random_bottle env sid st =
     (case pick_sample env sid st of
        Inl e \<Rightarrow> (Inl e, st)
      | Inr d \<Rightarrow> pick_mark env d st)"

definition get_active_bottle_counts :: "bool \<Rightarrow> store \<Rightarrow> http_error + BottleCountOut" where
  "get_active_bottle_counts raises st =
     (case count_documents raises st of
        Inl e \<Rightarrow>
          Inl (HTTPException HTTP_500_INTERNAL_SERVER_ERROR
                (''Internal server error while getting bottle counts: '' @ exception_text e))
      | Inr n \<Rightarrow> Inr \<lparr>total_active_bottles = int n\<rparr>)"

section \<open>Executions\<close>

text \<open>
  Requests run concurrently, and the store runs each of its calls atomically, so an
  execution of the service is, at the store, a sequence of calls in some order: any
  interleaving of the calls of the handlers in flight.
\<close>

datatype db_call =
    NextSeq bool string
  | InsertOne "nat option" bottle_data
  | Aggregate bool nat string
  | UpdateOne bool nat
  | CountDocuments bool

fun db_exec :: "db_call \<Rightarrow> store \<Rightarrow> store" where
  "db_exec (NextSeq raises name) st = snd (get_next_sequence_value raises name st)"
| "db_exec (InsertOne generated b) st = snd (insert_one generated b st)"
| "db_exec (Aggregate raises k sid) st = st"
| "db_exec (UpdateOne raises oid) st = snd (update_one raises oid st)"
| "db_exec (CountDocuments raises) st = st"

fun db_trace :: "db_call list \<Rightarrow> store \<Rightarrow> store" where
  "db_trace [] st = st"
| "db_trace (c # cs) st = db_trace cs (db_exec c st)"

text \<open>The values that the calls of \<open>get_next_sequence_value name\<close> return, in order.\<close>

fun returned_seq :: "string \<Rightarrow> db_call \<Rightarrow> store \<Rightarrow> int list" where
  "returned_seq name (NextSeq raises n) st =
     (if n = name
      then (case fst (get_next_sequence_value raises n st) of Inl e \<Rightarrow> [] | Inr v \<Rightarrow> [v])
      else [])"
| "returned_seq name c st = []"

fun issued :: "string \<Rightarrow> db_call list \<Rightarrow> store \<Rightarrow> int list" where
  "issued name [] st = []"
| "issued name (c # cs) st = returned_seq name c st @ issued name cs (db_exec c st)"

text \<open>Whole requests, served one after the other.\<close>

datatype request =
    AddBottle add_env BottleIn
  | PickRandomBottle pick_env string
  | GetActiveBottleCounts bool

datatype response = Bottle BottleOut | Count BottleCountOut | Error http_error


fun serve :: "request \<Rightarrow> store \<Rightarrow> response \<times> store" where
  "serve (AddBottle env bottle_in) st =
     (case add_bottle env bottle_in st of
        (Inl e, st1) \<Rightarrow> (Error e, st1) | (Inr b, st1) \<Rightarrow> (Bottle b, st1))"
| "serve (PickRandomBottle env sid) st =
     (case pick_random_bottle env sid st of
        (Inl e, st1) \<Rightarrow> (Error e, st1) | (Inr b, st1) \<Rightarrow> (Bottle b, st1))"
| "serve (GetActiveBottleCounts raises) st =
     (case get_active_bottle_counts raises st of
        Inl e \<Rightarrow> (Error e, st) | Inr c \<Rightarrow> (Count c, st))"

fun serve_all :: "request list \<Rightarrow> store \<Rightarrow> store" where
  "serve_all [] st = st"
| "serve_all (r # rs) st = serve_all rs (snd (serve r st))"

text \<open>The ids in the responses of the creations that succeed, in order.\<close>

fun created_id :: "request \<Rightarrow> store \<Rightarrow> int list" where
  "created_id (AddBottle env bottle_in) st =
     (case fst (add_bottle env bottle_in st) of Inl e \<Rightarrow> [] | Inr b \<Rightarrow> [out_bottle_id b])"
| "created_id r st = []"

fun created_ids :: "request list \<Rightarrow> store \<Rightarrow> int list" where
  "created_ids [] st = []"
| "created_ids (r # rs) st = created_id r st @ created_ids rs (snd (serve r st))"

text \<open>The last value a sequence has issued; 0 when it has no counter document.\<close>

definition last_seq :: "string \<Rightarrow> store \<Rightarrow> int" where
  "last_seq name st = (case counters st name of None \<Rightarrow> 0 | Some n \<Rightarrow> n)"

text \<open>The store keeps \<^verbatim>\<open>_id\<close> unique within a collection.\<close>

definition unique_ids :: "store \<Rightarrow> bool" where
  "unique_ids st = distinct (map doc_id (bottles st))"

text \<open>
  The ids of the stored records are pairwise distinct and none is above the last value the
  sequence \<^verbatim>\<open>"bottle_id"\<close> has issued.
\<close>

definition ids_consistent :: "store \<Rightarrow> bool" where
  "ids_consistent st =
     (distinct (map bottle_id (bottles st)) \<and>
      (\<forall>i \<in> set (map bottle_id (bottles st)). i \<le> last_seq ''bottle_id'' st))"

section \<open>Example data\<close>

definition store0 :: store where
  "store0 = \<lparr>counters = Map.empty, bottles = []\<rparr>"

definition bottle_in_u1 :: BottleIn where
  "bottle_in_u1 =
     \<lparr>in_content = ''hello'', in_images = [], in_sender = ''Ann'', in_sender_id = ''u1'',
      in_poke = False\<rparr>"

definition doc_A :: bottle_doc where
  "doc_A =
     \<lparr>doc_id = 10, content = ''hello'', images = [], sender = ''Ann'', sender_id = ''u1'',
      poke = False, bottle_id = 1, picked = False, timestamp = ''2024-01-01 00:00:00''\<rparr>"

definition doc_B :: bottle_doc where
  "doc_B =
     \<lparr>doc_id = 11, content = ''ahoy'', images = [], sender = ''Bob'', sender_id = ''u2'',
      poke = True, bottle_id = 2, picked = False, timestamp = ''2024-01-01 00:00:05''\<rparr>"

definition store_AB :: store where
  "store_AB = \<lparr>counters = [''bottle_id'' \<mapsto> 2], bottles = [doc_A, doc_B]\<rparr>"

definition env_ok :: add_env where
  "env_ok = \<lparr>seq_raises = False, now = ''2024-01-01 00:00:09'', generated_id = Some 12\<rparr>"

definition env_insert_fails :: add_env where
  "env_insert_fails = \<lparr>seq_raises = False, now = ''2024-01-01 00:00:09'', generated_id = None\<rparr>"

definition pick_ok :: pick_env where
  "pick_ok = \<lparr>aggregate_raises = False, draw = 0, update_raises = False\<rparr>"

definition store_A :: store where
  "store_A = \<lparr>counters = [''bottle_id'' \<mapsto> 1], bottles = [doc_A]\<rparr>"

definition store_B_claimed :: store where
  "store_B_claimed =
     \<lparr>counters = [''bottle_id'' \<mapsto> 2], bottles = [doc_A, doc_B\<lparr>picked := True\<rparr>]\<rparr>"

definition settings_ok :: settings where
  "settings_ok =
     \<lparr>MONGO_URI = Some ''mongodb://localhost:27017'', DATABASE_NAME = Some ''drift'',
      COLLECTION_NAME = Some ''bottles''\<rparr>"

definition startup_ok :: startup_env where
  "startup_ok =
     \<lparr>client_raises = False, database_refused = False, collection_refused = False,
      ping_raises = False\<rparr>"

lemmas ex_defs = store0_def store_A_def store_AB_def store_B_claimed_def doc_A_def doc_B_def
  bottle_in_u1_def env_ok_def env_insert_fails_def pick_ok_def

lemmas code_defs = get_next_sequence_value_def insert_one_def with_id_def new_bottle_data_def
  from_mongo_dict_def add_bottle_def match_def sample_def aggregate_def update_one_def
  count_documents_def pick_sample_def pick_mark_def pick_random_bottle_def
  get_active_bottle_counts_def HTTP_404_NOT_FOUND_def HTTP_500_INTERNAL_SERVER_ERROR_def
  unique_ids_def last_seq_def

section \<open>The store calls: basic facts\<close>

lemma set_picked_length: "length (set_picked oid ds) = length ds"
  by (induction ds) auto

lemma set_picked_map_doc_id: "map doc_id (set_picked oid ds) = map doc_id ds"
  by (induction ds) auto

lemma set_picked_keeps_picked:
  "i < length ds \<Longrightarrow> picked (ds ! i) \<Longrightarrow> set_picked oid ds ! i = ds ! i"
proof (induction ds arbitrary: i)
  case Nil then show ?case by simp
next
  case (Cons d ds)
  then show ?case by (cases i) auto
qed

lemma set_picked_other:
  "i < length ds \<Longrightarrow> doc_id (ds ! i) \<noteq> oid \<Longrightarrow> set_picked oid ds ! i = ds ! i"
proof (induction ds arbitrary: i)
  case Nil then show ?case by simp
next
  case (Cons d ds)
  then show ?case by (cases i) auto
qed

lemma last_seq_db_exec: "last_seq name st \<le> last_seq name (db_exec c st)"
  by (cases c)
     (auto simp: get_next_sequence_value_def insert_one_def update_one_def last_seq_def Let_def
           split: option.splits)

lemma next_value:
  "get_next_sequence_value False name st =
     (Inr (last_seq name st + 1),
      st\<lparr>counters := (counters st)(name \<mapsto> last_seq name st + 1)\<rparr>)"
  by (simp add: get_next_sequence_value_def last_seq_def Let_def split: option.splits)

lemma next_raises: "get_next_sequence_value True name st = (Inl StoreUnavailable, st)"
  by (simp add: get_next_sequence_value_def)

lemma returned_seq_bound:
  assumes "v \<in> set (returned_seq name c st)"
  shows "last_seq name st < v \<and> v \<le> last_seq name (db_exec c st)"
proof (cases c)
  case (NextSeq raises n)
  show ?thesis
  proof (cases "n = name \<and> \<not> raises")
    case True
    with assms NextSeq show ?thesis
      by (simp add: next_value last_seq_def)
  next
    case False
    then have "returned_seq name c st = []"
      using NextSeq by (cases raises) (auto simp: next_raises)
    with assms show ?thesis by simp
  qed
qed (use assms in simp_all)

lemma returned_seq_sorted: "sorted_wrt (<) (returned_seq name c st)"
  by (cases c) (auto split: sum.splits)

lemma issued_above: "v \<in> set (issued name cs st) \<Longrightarrow> last_seq name st < v"
proof (induction cs arbitrary: st)
  case Nil then show ?case by simp
next
  case (Cons c cs)
  from Cons.prems consider "v \<in> set (returned_seq name c st)"
    | "v \<in> set (issued name cs (db_exec c st))" by auto
  then show ?case
  proof cases
    case 1 then show ?thesis using returned_seq_bound by blast
  next
    case 2
    then have "last_seq name (db_exec c st) < v" by (rule Cons.IH)
    with last_seq_db_exec [of name st c] show ?thesis by linarith
  qed
qed

lemma issued_sorted: "sorted_wrt (<) (issued name cs st)"
proof (induction cs arbitrary: st)
  case Nil then show ?case by simp
next
  case (Cons c cs)
  have "x < y" if "x \<in> set (returned_seq name c st)" "y \<in> set (issued name cs (db_exec c st))" for x y
    using returned_seq_bound [OF that(1)] issued_above [OF that(2)] by linarith
  then show ?case
    using Cons.IH returned_seq_sorted by (auto simp: sorted_wrt_append)
qed

section \<open>The handlers: basic facts\<close>

lemma add_bottle_raises:
  "seq_raises env \<Longrightarrow>
     add_bottle env b st =
       (Inl (HTTPException HTTP_500_INTERNAL_SERVER_ERROR
              (''Internal server error while adding bottle: '' @ exception_text StoreUnavailable)), st)"
  by (simp add: add_bottle_def next_raises)

lemma add_bottle_allocated:
  "\<not> seq_raises env \<Longrightarrow>
     add_bottle env b st =
       (case insert_one (generated_id env)
               (new_bottle_data b (last_seq ''bottle_id'' st + 1) (now env))
               (st\<lparr>counters := (counters st)(''bottle_id'' \<mapsto> last_seq ''bottle_id'' st + 1)\<rparr>) of
          (Inl e, st2) \<Rightarrow>
            (Inl (HTTPException HTTP_500_INTERNAL_SERVER_ERROR
                   (''Internal server error while adding bottle: '' @ exception_text e)), st2)
        | (Inr d, st2) \<Rightarrow> (Inr (from_mongo_dict d), st2))"
  by (simp add: add_bottle_def next_value)

lemma insert_one_counters: "counters (snd (insert_one g b st)) = counters st"
  by (simp add: insert_one_def split: option.splits)

lemma insert_one_result:
  "insert_one g b st = (Inr d, st') \<Longrightarrow>
     (\<exists>oid. g = Some oid \<and> oid \<notin> set (map doc_id (bottles st)) \<and> d = with_id oid b \<and>
        st' = st\<lparr>bottles := bottles st @ [d]\<rparr>)"
  by (auto simp: insert_one_def split: option.splits if_splits)

lemma insert_one_error:
  "insert_one g b st = (Inl e, st') \<Longrightarrow> st' = st"
  by (auto simp: insert_one_def split: option.splits if_splits)

lemma add_bottle_created:
  assumes "add_bottle env b st = (Inr out, st')"
  shows "\<not> seq_raises env \<and> out_bottle_id out = last_seq ''bottle_id'' st + 1 \<and>
         last_seq ''bottle_id'' st' = last_seq ''bottle_id'' st + 1"
proof (cases "seq_raises env")
  case True
  with assms show ?thesis by (simp add: add_bottle_raises)
next
  case False
  let ?st1 = "st\<lparr>counters := (counters st)(''bottle_id'' \<mapsto> last_seq ''bottle_id'' st + 1)\<rparr>"
  let ?b = "new_bottle_data b (last_seq ''bottle_id'' st + 1) (now env)"
  obtain r st2 where ins: "insert_one (generated_id env) ?b ?st1 = (r, st2)"
    by (cases "insert_one (generated_id env) ?b ?st1")
  show ?thesis
  proof (cases r)
    case (Inl e)
    with assms False ins show ?thesis by (simp add: add_bottle_allocated)
  next
    case (Inr d)
    with assms False ins have out: "out = from_mongo_dict d" and st': "st' = st2"
      by (simp_all add: add_bottle_allocated)
    from insert_one_result [OF ins [unfolded Inr]]
    obtain oid where d: "d = with_id oid ?b" and st2: "st2 = ?st1\<lparr>bottles := bottles ?st1 @ [d]\<rparr>"
      by blast
    have "out_bottle_id out = last_seq ''bottle_id'' st + 1"
      by (simp add: out d from_mongo_dict_def with_id_def new_bottle_data_def)
    moreover have "last_seq ''bottle_id'' st' = last_seq ''bottle_id'' st + 1"
      by (simp add: st' st2 last_seq_def)
    ultimately show ?thesis using False by simp
  qed
qed

lemma last_seq_add_bottle:
  "last_seq name st \<le> last_seq name (snd (add_bottle env b st))"
proof (cases "seq_raises env")
  case True
  then show ?thesis by (simp add: add_bottle_raises)
next
  case False
  let ?st1 = "st\<lparr>counters := (counters st)(''bottle_id'' \<mapsto> last_seq ''bottle_id'' st + 1)\<rparr>"
  let ?b = "new_bottle_data b (last_seq ''bottle_id'' st + 1) (now env)"
  have "counters (snd (add_bottle env b st)) = counters ?st1"
    using False insert_one_counters [of "generated_id env" ?b ?st1]
    by (auto simp: add_bottle_allocated split: prod.splits sum.splits)
  then show ?thesis
    by (simp add: last_seq_def)
qed

lemma pick_random_bottle_counters:
  "counters (snd (pick_random_bottle env sid st)) = counters st"
  by (simp add: pick_random_bottle_def pick_mark_def update_one_def
           split: sum.splits prod.splits)

lemma last_seq_serve: "last_seq name st \<le> last_seq name (snd (serve r st))"
proof (cases r)
  case (AddBottle env b)
  then show ?thesis
    using last_seq_add_bottle [of name st env b] by (auto split: prod.splits sum.splits)
next
  case (PickRandomBottle env sid)
  then show ?thesis
    using pick_random_bottle_counters [of env sid st]
    by (auto simp: last_seq_def split: prod.splits sum.splits)
next
  case (GetActiveBottleCounts raises)
  then show ?thesis by (simp split: sum.splits)
qed

lemma created_id_bound:
  assumes "v \<in> set (created_id r st)"
  shows "last_seq ''bottle_id'' st < v \<and> v \<le> last_seq ''bottle_id'' (snd (serve r st))"
proof (cases r)
  case (AddBottle env b)
  obtain res st' where ab: "add_bottle env b st = (res, st')"
    by (cases "add_bottle env b st")
  show ?thesis
  proof (cases res)
    case (Inl e)
    with assms AddBottle ab show ?thesis by simp
  next
    case (Inr out)
    with assms AddBottle ab add_bottle_created [of env b st out st']
    show ?thesis by simp
  qed
qed (use assms in simp_all)

lemma created_id_sorted: "sorted_wrt (<) (created_id r st)"
  by (cases r) (auto split: sum.splits)

lemma created_ids_above: "v \<in> set (created_ids rs st) \<Longrightarrow> last_seq ''bottle_id'' st < v"
proof (induction rs arbitrary: st)
  case Nil then show ?case by simp
next
  case (Cons r rs)
  from Cons.prems consider "v \<in> set (created_id r st)"
    | "v \<in> set (created_ids rs (snd (serve r st)))" by auto
  then show ?case
  proof cases
    case 1 then show ?thesis using created_id_bound by blast
  next
    case 2
    then have "last_seq ''bottle_id'' (snd (serve r st)) < v" by (rule Cons.IH)
    with last_seq_serve [of "''bottle_id''" st r] show ?thesis by linarith
  qed
qed

lemma created_ids_sorted: "sorted_wrt (<) (created_ids rs st)"
proof (induction rs arbitrary: st)
  case Nil then show ?case by simp
next
  case (Cons r rs)
  have "x < y" if "x \<in> set (created_id r st)" "y \<in> set (created_ids rs (snd (serve r st)))" for x y
    using created_id_bound [OF that(1)] created_ids_above [OF that(2)] by linarith
  then show ?case
    using Cons.IH created_id_sorted by (auto simp: sorted_wrt_append)
qed

lemma created_id_returned:
  "set (created_id (AddBottle env b) st)
     \<subseteq> set (returned_seq ''bottle_id'' (NextSeq (seq_raises env) ''bottle_id'') st)"
proof (cases "fst (add_bottle env b st)")
  case (Inl e)
  then show ?thesis by simp
next
  case (Inr out)
  then have "add_bottle env b st = (Inr out, snd (add_bottle env b st))"
    by (metis prod.collapse)
  from add_bottle_created [OF this] Inr show ?thesis
    by (simp add: next_value)
qed

lemma sample_cases:
  "sample k xs = [] \<and> xs = [] \<or> (\<exists>d. sample k xs = [d] \<and> d \<in> set xs)"
  by (auto simp: sample_def)

lemma pick_sample_found:
  assumes "pick_sample env sid st = Inr d"
  shows "\<not> aggregate_raises env \<and> d \<in> set (bottles st) \<and> picked d = False \<and> sender_id d \<noteq> sid"
proof -
  from assms have nr: "\<not> aggregate_raises env"
    by (auto simp: pick_sample_def aggregate_def)
  let ?xs = "filter (match sid) (bottles st)"
  from sample_cases [of "draw env" ?xs] show ?thesis
  proof
    assume "sample (draw env) ?xs = [] \<and> ?xs = []"
    with assms nr show ?thesis by (simp add: pick_sample_def aggregate_def sample_def)
  next
    assume "\<exists>x. sample (draw env) ?xs = [x] \<and> x \<in> set ?xs"
    then obtain x where "sample (draw env) ?xs = [x]" "x \<in> set ?xs" by blast
    with assms nr show ?thesis by (simp add: pick_sample_def aggregate_def match_def)
  qed
qed

lemma pick_sample_none:
  assumes "filter (match sid) (bottles st) = []"
  shows "pick_sample env sid st =
           (if aggregate_raises env
            then Inl (HTTPException HTTP_500_INTERNAL_SERVER_ERROR
                       (''Internal server error while picking bottle: '' @ exception_text StoreUnavailable))
            else Inl (HTTPException HTTP_404_NOT_FOUND ''No available bottles to pick.''))"
  using assms by (simp add: pick_sample_def aggregate_def sample_def)

lemma pick_mark_result:
  "pick_mark env d st =
     (if update_raises env
      then (Inl (HTTPException HTTP_500_INTERNAL_SERVER_ERROR
                  (''Internal server error while picking bottle: '' @ exception_text StoreUnavailable)), st)
      else (Inr (from_mongo_dict d), st\<lparr>bottles := set_picked (doc_id d) (bottles st)\<rparr>))"
  by (simp add: pick_mark_def update_one_def)

lemma pick_random_bottle_found:
  assumes "pick_random_bottle env sid st = (Inr out, st')"
  shows "\<exists>d. pick_sample env sid st = Inr d \<and> out = from_mongo_dict d \<and>
             st' = st\<lparr>bottles := set_picked (doc_id d) (bottles st)\<rparr>"
proof (cases "pick_sample env sid st")
  case (Inl e)
  with assms show ?thesis by (simp add: pick_random_bottle_def)
next
  case (Inr d)
  with assms show ?thesis
    by (cases "update_raises env") (simp_all add: pick_random_bottle_def pick_mark_result)
qed

lemma set_picked_already:
  "(\<forall>x \<in> set ds. doc_id x = oid \<longrightarrow> picked x) \<Longrightarrow> set_picked oid ds = ds"
  by (induction ds) auto

lemma set_picked_unique:
  "distinct (map doc_id ds) \<Longrightarrow>
     set_picked oid ds = map (\<lambda>x. if doc_id x = oid then x\<lparr>picked := True\<rparr> else x) ds"
proof (induction ds)
  case Nil then show ?case by simp
next
  case (Cons d ds)
  show ?case
  proof (cases "doc_id d = oid")
    case True
    from Cons.prems have "doc_id d \<notin> doc_id ` set ds" by simp
    then have "\<forall>x \<in> set ds. doc_id x \<noteq> doc_id d" by (metis imageI)
    with True have "\<forall>x \<in> set ds. doc_id x \<noteq> oid" by simp
    then have "map (\<lambda>x. if doc_id x = oid then x\<lparr>picked := True\<rparr> else x) ds = ds"
      by (simp add: map_idI)
    with True show ?thesis by simp
  next
    case False
    with Cons show ?thesis by simp
  qed
qed

lemma set_picked_map_bottle_id: "map bottle_id (set_picked oid ds) = map bottle_id ds"
  by (induction ds) auto

lemma add_bottle_failed:
  assumes "add_bottle env b st = (Inl e, st')"
  shows "bottles st' = bottles st"
proof (cases "seq_raises env")
  case True
  with assms show ?thesis by (simp add: add_bottle_raises)
next
  case False
  let ?st1 = "st\<lparr>counters := (counters st)(''bottle_id'' \<mapsto> last_seq ''bottle_id'' st + 1)\<rparr>"
  let ?b = "new_bottle_data b (last_seq ''bottle_id'' st + 1) (now env)"
  obtain r st2 where ins: "insert_one (generated_id env) ?b ?st1 = (r, st2)"
    by (cases "insert_one (generated_id env) ?b ?st1")
  show ?thesis
  proof (cases r)
    case (Inl e')
    with assms False ins insert_one_error [of "generated_id env" ?b ?st1 e' st2]
    show ?thesis by (simp add: add_bottle_allocated)
  next
    case (Inr d)
    with assms False ins show ?thesis by (simp add: add_bottle_allocated)
  qed
qed

lemma add_bottle_response:
  assumes "add_bottle env b st = (Inr out, st')"
  shows "\<exists>oid. generated_id env = Some oid \<and> oid \<notin> set (map doc_id (bottles st)) \<and>
           bottles st' = bottles st @
             [with_id oid (new_bottle_data b (last_seq ''bottle_id'' st + 1) (now env))] \<and>
           out = from_mongo_dict
             (with_id oid (new_bottle_data b (last_seq ''bottle_id'' st + 1) (now env)))"
proof -
  from add_bottle_created [OF assms] have nr: "\<not> seq_raises env" by simp
  let ?st1 = "st\<lparr>counters := (counters st)(''bottle_id'' \<mapsto> last_seq ''bottle_id'' st + 1)\<rparr>"
  let ?b = "new_bottle_data b (last_seq ''bottle_id'' st + 1) (now env)"
  obtain r st2 where ins: "insert_one (generated_id env) ?b ?st1 = (r, st2)"
    by (cases "insert_one (generated_id env) ?b ?st1")
  show ?thesis
  proof (cases r)
    case (Inl e)
    with assms nr ins show ?thesis by (simp add: add_bottle_allocated)
  next
    case (Inr d)
    with assms nr ins have out: "out = from_mongo_dict d" and st': "st' = st2"
      by (simp_all add: add_bottle_allocated)
    from insert_one_result [OF ins [unfolded Inr]] out st' show ?thesis by auto
  qed
qed

section \<open>Executions: invariants\<close>

lemma db_exec_keeps_picked:
  assumes "i < length (bottles st)" "picked (bottles st ! i)"
  shows "i < length (bottles (db_exec c st)) \<and> bottles (db_exec c st) ! i = bottles st ! i"
proof (cases c)
  case (InsertOne g b)
  with assms show ?thesis
    by (auto simp: insert_one_def nth_append split: option.splits)
next
  case (UpdateOne raises oid)
  with assms show ?thesis
    by (simp add: update_one_def set_picked_length set_picked_keeps_picked)
next
  case (NextSeq raises n)
  with assms show ?thesis
    by (cases raises) (simp_all add: next_raises next_value)
qed (use assms in simp_all)

lemma db_exec_unique_ids: "unique_ids st \<Longrightarrow> unique_ids (db_exec c st)"
proof (cases c)
  case (InsertOne g b)
  assume "unique_ids st"
  with InsertOne show ?thesis
    by (auto simp: unique_ids_def insert_one_def with_id_def split: option.splits)
next
  case (UpdateOne raises oid)
  assume "unique_ids st"
  with UpdateOne show ?thesis
    by (simp add: unique_ids_def update_one_def set_picked_map_doc_id)
next
  case (NextSeq raises n)
  assume "unique_ids st"
  with NextSeq show ?thesis
    by (cases raises) (simp_all add: next_raises next_value unique_ids_def)
qed simp_all

lemma db_trace_keeps_picked:
  "i < length (bottles st) \<Longrightarrow> picked (bottles st ! i) \<Longrightarrow>
     i < length (bottles (db_trace cs st)) \<and> bottles (db_trace cs st) ! i = bottles st ! i"
proof (induction cs arbitrary: st)
  case Nil then show ?case by simp
next
  case (Cons c cs)
  from db_exec_keeps_picked [OF Cons.prems, of c]
  have 1: "i < length (bottles (db_exec c st))" and 2: "bottles (db_exec c st) ! i = bottles st ! i"
    by simp_all
  from 2 Cons.prems(2) have 3: "picked (bottles (db_exec c st) ! i)" by simp
  from Cons.IH [OF 1 3] 2 show ?case by simp
qed

lemma db_trace_unique_ids: "unique_ids st \<Longrightarrow> unique_ids (db_trace cs st)"
  by (induction cs arbitrary: st) (simp_all add: db_exec_unique_ids)

lemma db_trace_append: "db_trace (xs @ ys) st = db_trace ys (db_trace xs st)"
  by (induction xs arbitrary: st) simp_all

lemma add_bottle_trace:
  "snd (add_bottle env b st) =
     db_trace [NextSeq (seq_raises env) ''bottle_id'',
               InsertOne (if seq_raises env then None else generated_id env)
                 (new_bottle_data b (last_seq ''bottle_id'' st + 1) (now env))] st"
proof (cases "seq_raises env")
  case True
  then show ?thesis by (simp add: add_bottle_raises next_raises insert_one_def)
next
  case False
  then show ?thesis
    by (auto simp: add_bottle_allocated next_value split: prod.splits sum.splits)
qed

lemma pick_random_bottle_trace:
  "\<exists>cs. snd (pick_random_bottle env sid st) = db_trace cs st"
proof (cases "pick_sample env sid st")
  case (Inl e)
  then have "snd (pick_random_bottle env sid st) = db_trace [] st"
    by (simp add: pick_random_bottle_def)
  then show ?thesis by blast
next
  case (Inr d)
  then have "snd (pick_random_bottle env sid st) =
      db_trace [UpdateOne (update_raises env) (doc_id d)] st"
    by (simp add: pick_random_bottle_def pick_mark_def split: prod.splits sum.splits)
  then show ?thesis by blast
qed

lemma serve_trace: "\<exists>cs. snd (serve r st) = db_trace cs st"
proof (cases r)
  case (AddBottle env b)
  then have "snd (serve r st) = snd (add_bottle env b st)"
    by (auto split: prod.splits sum.splits)
  with add_bottle_trace show ?thesis by metis
next
  case (PickRandomBottle env sid)
  then have "snd (serve r st) = snd (pick_random_bottle env sid st)"
    by (auto split: prod.splits sum.splits)
  with pick_random_bottle_trace show ?thesis by metis
next
  case (GetActiveBottleCounts raises)
  then have "snd (serve r st) = db_trace [] st"
    by (auto split: sum.splits)
  then show ?thesis by blast
qed

lemma serve_all_trace: "\<exists>cs. serve_all rs st = db_trace cs st"
proof (induction rs arbitrary: st)
  case Nil
  have "serve_all [] st = db_trace [] st" by simp
  then show ?case by blast
next
  case (Cons r rs)
  obtain cs1 where 1: "snd (serve r st) = db_trace cs1 st"
    using serve_trace by blast
  obtain cs2 where 2: "serve_all rs (snd (serve r st)) = db_trace cs2 (snd (serve r st))"
    using Cons.IH by blast
  have "serve_all (r # rs) st = db_trace (cs1 @ cs2) st"
    by (simp add: db_trace_append 1 [symmetric] 2)
  then show ?case by blast
qed

lemma unique_ids_same:
  assumes "unique_ids st" "x \<in> set (bottles st)" "y \<in> set (bottles st)" "doc_id x = doc_id y"
  shows "x = y"
proof -
  from assms(1) have "inj_on doc_id (set (bottles st))"
    by (simp add: unique_ids_def distinct_map)
  with assms(2-4) show ?thesis by (auto dest: inj_onD)
qed

lemma add_bottle_ids_consistent:
  assumes "ids_consistent st"
  shows "ids_consistent (snd (add_bottle env b st))"
proof -
  obtain res st' where ab: "add_bottle env b st = (res, st')"
    by (cases "add_bottle env b st")
  have le: "last_seq ''bottle_id'' st \<le> last_seq ''bottle_id'' st'"
    using last_seq_add_bottle [of "''bottle_id''" st env b] ab by simp
  show ?thesis
  proof (cases res)
    case (Inl e)
    with ab have "bottles st' = bottles st" by (simp add: add_bottle_failed)
    with assms le ab show ?thesis by (fastforce simp: ids_consistent_def)
  next
    case (Inr out)
    from add_bottle_response [OF ab [unfolded Inr]] obtain oid where
      bs: "bottles st' = bottles st @
             [with_id oid (new_bottle_data b (last_seq ''bottle_id'' st + 1) (now env))]"
      by blast
    from add_bottle_created [OF ab [unfolded Inr]]
    have last: "last_seq ''bottle_id'' st' = last_seq ''bottle_id'' st + 1" by simp
    have new: "bottle_id (with_id oid (new_bottle_data b (last_seq ''bottle_id'' st + 1) (now env)))
        = last_seq ''bottle_id'' st + 1"
      by (simp add: with_id_def new_bottle_data_def)
    from assms have "\<forall>i \<in> set (map bottle_id (bottles st)). i \<noteq> last_seq ''bottle_id'' st + 1"
      by (fastforce simp: ids_consistent_def)
    with assms bs last new ab show ?thesis
      by (fastforce simp: ids_consistent_def)
  qed
qed

lemma pick_random_bottle_ids_consistent:
  assumes "ids_consistent st"
  shows "ids_consistent (snd (pick_random_bottle env sid st))"
proof -
  have "map bottle_id (bottles (snd (pick_random_bottle env sid st))) = map bottle_id (bottles st)"
    by (simp add: pick_random_bottle_def pick_mark_result set_picked_map_bottle_id
          split: sum.splits)
  with assms show ?thesis
    using pick_random_bottle_counters [of env sid st]
    by (simp add: ids_consistent_def last_seq_def)
qed

lemma serve_ids_consistent: "ids_consistent st \<Longrightarrow> ids_consistent (snd (serve r st))"
proof (cases r)
  case (AddBottle env b)
  assume "ids_consistent st"
  from add_bottle_ids_consistent [OF this, of env b] AddBottle show ?thesis
    by (auto split: prod.splits sum.splits)
next
  case (PickRandomBottle env sid)
  assume "ids_consistent st"
  from pick_random_bottle_ids_consistent [OF this, of env sid] PickRandomBottle show ?thesis
    by (auto split: prod.splits sum.splits)
next
  case (GetActiveBottleCounts raises)
  assume "ids_consistent st"
  with GetActiveBottleCounts show ?thesis by (auto split: sum.splits)
qed

lemma serve_all_ids_consistent: "ids_consistent st \<Longrightarrow> ids_consistent (serve_all rs st)"
  by (induction rs arbitrary: st) (simp_all add: serve_ids_consistent)




section \<open>Start of the process and error bodies: basic facts\<close>

lemma Collection_missing: "py_not name \<Longrightarrow> \<exists>e. Collection refused name = Inl e"
  by (auto simp: py_not_def Collection_def split: option.splits)

lemma startup_db_client_missing:
  assumes "py_not (COLLECTION_NAME s)"
  shows "\<exists>e. startup_db_client env s = Inl (startup_failed e)"
proof -
  from Collection_missing [OF assms] obtain e where
    e: "Collection (collection_refused env) (COLLECTION_NAME s) = Inl e" by blast
  show ?thesis
  proof (cases "client_raises env")
    case True
    then show ?thesis by (auto simp: startup_db_client_def)
  next
    case False
    show ?thesis
    proof (cases "Database (database_refused env) (DATABASE_NAME s)")
      case (Inl e')
      with False show ?thesis by (auto simp: startup_db_client_def)
    next
      case (Inr db)
      with False e show ?thesis by (auto simp: startup_db_client_def)
    qed
  qed
qed






section \<open>Identifier allocation\<close>

text \<open>
  Claim C1. The ids that the calls of the allocator for \<^verbatim>\<open>"bottle_id"\<close> return are strictly
  increasing in the order of the calls, along any sequence of store calls, that is along any
  interleaving of concurrent requests; so they are pairwise distinct. The ids in the
  responses of the creations of any sequence of requests are strictly increasing and
  pairwise distinct as well, the id a creation assigns is the one its allocator call
  returned, and no two stored records come to share an id.
\<close>

theorem bottle_ids_strictly_increasing:
  "sorted_wrt (<) (issued ''bottle_id'' cs st) \<and> distinct (issued ''bottle_id'' cs st) \<and>
   sorted_wrt (<) (created_ids rs st) \<and> distinct (created_ids rs st) \<and>
   set (created_id (AddBottle env b) st)
     \<subseteq> set (returned_seq ''bottle_id'' (NextSeq (seq_raises env) ''bottle_id'') st) \<and>
   (ids_consistent st \<longrightarrow> ids_consistent (serve_all rs st))"
proof -
  have "distinct xs" if "sorted_wrt (<) xs" for xs :: "int list"
    using that by (simp add: strict_sorted_iff)
  then show ?thesis
    using issued_sorted created_ids_sorted created_id_returned serve_all_ids_consistent by blast
qed

theorem bottle_ids_strictly_increasing_witness:
  "issued ''bottle_id'' [NextSeq False ''bottle_id'', NextSeq True ''bottle_id'',
      InsertOne (Some 12) (new_bottle_data bottle_in_u1 3 ''2024''), NextSeq False ''bottle_id'']
     store_AB = [3, 4] \<and>
   created_ids [AddBottle env_ok bottle_in_u1, AddBottle env_insert_fails bottle_in_u1,
      AddBottle (env_ok\<lparr>generated_id := Some 13\<rparr>) bottle_in_u1] store_AB = [3, 5] \<and>
   ids_consistent store_AB \<and>
   map bottle_id (bottles (serve_all [AddBottle env_ok bottle_in_u1,
      AddBottle env_insert_fails bottle_in_u1,
      AddBottle (env_ok\<lparr>generated_id := Some 13\<rparr>) bottle_in_u1] store_AB)) = [1, 2, 3, 5] \<and>
   ids_consistent (serve_all [AddBottle env_ok bottle_in_u1,
      AddBottle env_insert_fails bottle_in_u1,
      AddBottle (env_ok\<lparr>generated_id := Some 13\<rparr>) bottle_in_u1] store_AB)"
  using bottle_ids_strictly_increasing
    [of "[NextSeq False ''bottle_id'', NextSeq True ''bottle_id'',
          InsertOne (Some 12) (new_bottle_data bottle_in_u1 3 ''2024''), NextSeq False ''bottle_id'']"
        store_AB
        "[AddBottle env_ok bottle_in_u1, AddBottle env_insert_fails bottle_in_u1,
          AddBottle (env_ok\<lparr>generated_id := Some 13\<rparr>) bottle_in_u1]"
        env_ok bottle_in_u1]
  by (simp add: ex_defs code_defs ids_consistent_def)

text \<open>
  Claim C3. A call of the allocator that finds no counter document for the sequence creates
  it with the value 1 and returns 1, in the one call; a call that finds the value \<open>n\<close> stores
  and returns \<open>n + 1\<close>. No other counter and no bottle is touched. A call that raises
  changes nothing.
\<close>

theorem next_id_post_increment:
  assumes "get_next_sequence_value raises sequence_name st = (r, st')"
  shows "(raises \<longrightarrow> r = Inl StoreUnavailable \<and> st' = st) \<and>
         (\<not> raises \<longrightarrow>
            (counters st sequence_name = None \<longrightarrow>
               r = Inr 1 \<and> counters st' sequence_name = Some 1) \<and>
            (\<forall>n. counters st sequence_name = Some n \<longrightarrow>
               r = Inr (n + 1) \<and> counters st' sequence_name = Some (n + 1)) \<and>
            (\<forall>other. other \<noteq> sequence_name \<longrightarrow> counters st' other = counters st other) \<and>
            bottles st' = bottles st)"
  using assms
  by (cases raises) (auto simp: get_next_sequence_value_def Let_def)

theorem next_id_post_increment_witness:
  "get_next_sequence_value False ''bottle_id'' store0 =
     (Inr 1, store0\<lparr>counters := [''bottle_id'' \<mapsto> 1]\<rparr>) \<and>
   get_next_sequence_value False ''bottle_id'' store_AB =
     (Inr 3, store_AB\<lparr>counters := [''bottle_id'' \<mapsto> 3]\<rparr>) \<and>
   get_next_sequence_value True ''bottle_id'' store_AB = (Inl StoreUnavailable, store_AB)"
  using next_id_post_increment [of False "''bottle_id''" store0 "Inr 1"
      "store0\<lparr>counters := [''bottle_id'' \<mapsto> 1]\<rparr>"]
    next_id_post_increment [of False "''bottle_id''" store_AB "Inr 3"
      "store_AB\<lparr>counters := [''bottle_id'' \<mapsto> 3]\<rparr>"]
    next_id_post_increment [of True "''bottle_id''" store_AB "Inl StoreUnavailable" store_AB]
  by (simp add: ex_defs code_defs)

text \<open>
  Claim C9. When the allocator returns an id and the insertion then raises, the creation
  answers with status 500, no record has been added, the counter keeps the new value, and
  that id is returned by no later allocator call and assigned by no later creation.
\<close>

theorem failed_insert_skips_id:
  assumes "get_next_sequence_value (seq_raises env) ''bottle_id'' st = (Inr new_id, st1)"
    and "fst (insert_one (generated_id env) (new_bottle_data b new_id (now env)) st1) = Inl e"
  shows "add_bottle env b st =
           (Inl (HTTPException HTTP_500_INTERNAL_SERVER_ERROR
                  (''Internal server error while adding bottle: '' @ exception_text e)), st1) \<and>
         bottles st1 = bottles st \<and>
         counters st1 ''bottle_id'' = Some new_id \<and>
         new_id = last_seq ''bottle_id'' st + 1 \<and>
         new_id \<notin> set (issued ''bottle_id'' cs st1) \<and>
         new_id \<notin> set (created_ids rs st1)"
proof -
  from assms(1) have nr: "\<not> seq_raises env"
    by (cases "seq_raises env") (simp_all add: next_raises)
  with assms(1) have new_id: "new_id = last_seq ''bottle_id'' st + 1"
    and st1: "st1 = st\<lparr>counters := (counters st)(''bottle_id'' \<mapsto> last_seq ''bottle_id'' st + 1)\<rparr>"
    by (auto simp: next_value)
  obtain st2 where ins: "insert_one (generated_id env) (new_bottle_data b new_id (now env)) st1 = (Inl e, st2)"
    using assms(2) by (metis prod.collapse)
  from insert_one_error [OF ins] have "st2 = st1" .
  with ins assms(1) have 1: "add_bottle env b st =
      (Inl (HTTPException HTTP_500_INTERNAL_SERVER_ERROR
             (''Internal server error while adding bottle: '' @ exception_text e)), st1)"
    by (simp add: add_bottle_def)
  have last: "last_seq ''bottle_id'' st1 = new_id"
    by (simp add: st1 new_id last_seq_def)
  have 2: "new_id \<notin> set (issued ''bottle_id'' cs st1)"
    using issued_above [of new_id "''bottle_id''" cs st1] last by auto
  have 3: "new_id \<notin> set (created_ids rs st1)"
    using created_ids_above [of new_id rs st1] last by auto
  from 1 2 3 new_id show ?thesis by (simp add: st1)
qed

theorem failed_insert_skips_id_witness:
  "get_next_sequence_value (seq_raises env_insert_fails) ''bottle_id'' store_AB =
     (Inr 3, store_AB\<lparr>counters := [''bottle_id'' \<mapsto> 3]\<rparr>) \<and>
   fst (insert_one (generated_id env_insert_fails)
          (new_bottle_data bottle_in_u1 3 (now env_insert_fails))
          (store_AB\<lparr>counters := [''bottle_id'' \<mapsto> 3]\<rparr>)) = Inl StoreUnavailable \<and>
   add_bottle env_insert_fails bottle_in_u1 store_AB =
     (Inl (HTTPException HTTP_500_INTERNAL_SERVER_ERROR
            ''Internal server error while adding bottle: store unavailable''),
      store_AB\<lparr>counters := [''bottle_id'' \<mapsto> 3]\<rparr>) \<and>
   created_ids [AddBottle env_ok bottle_in_u1] (store_AB\<lparr>counters := [''bottle_id'' \<mapsto> 3]\<rparr>)
     = [4]"
  using failed_insert_skips_id [of env_insert_fails store_AB 3
      "store_AB\<lparr>counters := [''bottle_id'' \<mapsto> 3]\<rparr>" bottle_in_u1 StoreUnavailable
      "[]" "[AddBottle env_ok bottle_in_u1]"]
  by (simp add: ex_defs code_defs)

section \<open>Claiming a bottle\<close>

text \<open>
  Claim C2. A record returned by a claim request of requester \<open>X\<close> is a record of the
  collection that, when sampled, was not picked and had a sender other than \<open>X\<close>. When every
  unpicked record was sent by \<open>X\<close>, the request returns no record: it answers 404 (500 when
  the read itself raises).
\<close>

theorem pick_returns_only_eligible:
  "(pick_random_bottle env X st = (Inr out, st') \<longrightarrow>
      (\<exists>d \<in> set (bottles st). out = from_mongo_dict d \<and> picked d = False \<and> sender_id d \<noteq> X) \<and>
      out_picked out = False \<and> out_sender_id out \<noteq> X) \<and>
   ((\<forall>d \<in> set (bottles st). picked d = False \<longrightarrow> sender_id d = X) \<longrightarrow>
      (\<forall>b. fst (pick_random_bottle env X st) \<noteq> Inr b) \<and>
      (\<not> aggregate_raises env \<longrightarrow>
         pick_random_bottle env X st = (Inl (HTTPException HTTP_404_NOT_FOUND ''No available bottles to pick.''), st)))"
proof (intro conjI impI)
  assume a: "pick_random_bottle env X st = (Inr out, st')"
  from pick_random_bottle_found [OF a] obtain d where
    d: "pick_sample env X st = Inr d" "out = from_mongo_dict d" by blast
  from pick_sample_found [OF d(1)] d(2)
  show "\<exists>d \<in> set (bottles st). out = from_mongo_dict d \<and> picked d = False \<and> sender_id d \<noteq> X"
    by blast
  from pick_sample_found [OF d(1)] d(2)
  show "out_picked out = False" "out_sender_id out \<noteq> X"
    by (simp_all add: from_mongo_dict_def)
next
  assume own: "\<forall>d \<in> set (bottles st). picked d = False \<longrightarrow> sender_id d = X"
  then have none: "filter (match X) (bottles st) = []"
    by (auto simp: filter_empty_conv match_def)
  show "\<forall>b. fst (pick_random_bottle env X st) \<noteq> Inr b"
    by (simp add: pick_random_bottle_def pick_sample_none [OF none])
  assume "\<not> aggregate_raises env"
  then show "pick_random_bottle env X st = (Inl (HTTPException HTTP_404_NOT_FOUND ''No available bottles to pick.''), st)"
    by (simp add: pick_random_bottle_def pick_sample_none [OF none])
qed

theorem pick_returns_only_eligible_witness:
  "pick_random_bottle pick_ok ''u1'' store_AB =
     (Inr (from_mongo_dict doc_B), store_B_claimed) \<and>
   out_sender_id (from_mongo_dict doc_B) = ''u2'' \<and>
   out_picked (from_mongo_dict doc_B) = False \<and>
   pick_random_bottle pick_ok ''u1'' store_A = (Inl (HTTPException HTTP_404_NOT_FOUND ''No available bottles to pick.''), store_A)"
  using pick_returns_only_eligible
      [of pick_ok "''u1''" store_AB "from_mongo_dict doc_B" store_B_claimed]
    pick_returns_only_eligible [of pick_ok "''u1''" store_A]
  by (simp add: ex_defs code_defs)

text \<open>
  Claim C4. A record that is picked stays in the collection, at its place and unchanged, so
  still picked, whatever store calls or requests follow; and no claim request that samples
  afterwards returns the record with its \<^verbatim>\<open>_id\<close>.
\<close>

theorem claimed_is_permanent:
  assumes "unique_ids st" "i < length (bottles st)" "picked (bottles st ! i)"
    and "st' = db_trace cs st \<or> st' = serve_all rs st"
  shows "i < length (bottles st') \<and> bottles st' ! i = bottles st ! i \<and>
         picked (bottles st' ! i) \<and>
         (\<forall>env sid d. pick_sample env sid st' = Inr d \<longrightarrow>
            doc_id d \<noteq> doc_id (bottles st ! i)) \<and>
         (\<forall>env sid out st''. pick_random_bottle env sid st' = (Inr out, st'') \<longrightarrow>
            (\<exists>d \<in> set (bottles st'). doc_id d \<noteq> doc_id (bottles st ! i) \<and>
               out = from_mongo_dict d))"
proof -
  from assms(4) obtain cs' where st': "st' = db_trace cs' st"
    using serve_all_trace by blast
  from db_trace_keeps_picked [OF assms(2,3), of cs'] st'
  have len: "i < length (bottles st')" and same: "bottles st' ! i = bottles st ! i"
    by simp_all
  from same assms(3) have pk: "picked (bottles st' ! i)" by simp
  from db_trace_unique_ids [OF assms(1), of cs'] st' have uq: "unique_ids st'" by simp
  have fresh: "doc_id d \<noteq> doc_id (bottles st ! i)"
    if "pick_sample env sid st' = Inr d" for env sid d
  proof
    assume eq: "doc_id d = doc_id (bottles st ! i)"
    from pick_sample_found [OF that] have d: "d \<in> set (bottles st')" "picked d = False"
      by simp_all
    from len have "bottles st' ! i \<in> set (bottles st')" by simp
    from unique_ids_same [OF uq d(1) this] eq same have "d = bottles st' ! i" by simp
    with d(2) pk show False by simp
  qed
  have resp: "\<exists>d \<in> set (bottles st'). doc_id d \<noteq> doc_id (bottles st ! i) \<and> out = from_mongo_dict d"
    if "pick_random_bottle env sid st' = (Inr out, st'')" for env sid out st''
  proof -
    from pick_random_bottle_found [OF that] obtain d where
      d: "pick_sample env sid st' = Inr d" "out = from_mongo_dict d" by blast
    from pick_sample_found [OF d(1)] fresh [OF d(1)] d(2) show ?thesis by blast
  qed
  from len same pk fresh resp show ?thesis by blast
qed

theorem claimed_is_permanent_witness:
  "unique_ids store_B_claimed \<and> picked (bottles store_B_claimed ! 1) \<and>
   bottles (db_trace [NextSeq False ''bottle_id'',
       InsertOne (Some 12) (new_bottle_data bottle_in_u1 3 ''2024-01-01 00:00:09''),
       UpdateOne False 11, UpdateOne False 10] store_B_claimed) ! 1 = doc_B\<lparr>picked := True\<rparr> \<and>
   pick_sample pick_ok ''u3'' (db_trace [NextSeq False ''bottle_id'',
       InsertOne (Some 12) (new_bottle_data bottle_in_u1 3 ''2024-01-01 00:00:09''),
       UpdateOne False 11, UpdateOne False 10] store_B_claimed)
     = Inr (with_id 12 (new_bottle_data bottle_in_u1 3 ''2024-01-01 00:00:09''))"
  using claimed_is_permanent [of store_B_claimed 1
      "db_trace [NextSeq False ''bottle_id'',
       InsertOne (Some 12) (new_bottle_data bottle_in_u1 3 ''2024-01-01 00:00:09''),
       UpdateOne False 11, UpdateOne False 10] store_B_claimed"
      "[NextSeq False ''bottle_id'',
       InsertOne (Some 12) (new_bottle_data bottle_in_u1 3 ''2024-01-01 00:00:09''),
       UpdateOne False 11, UpdateOne False 10]" "[]"]
  by (simp add: ex_defs code_defs)

text \<open>
  Claim C5. When no record is eligible for the requester, the claim request answers 404
  from the sampling part, before any update, and the store is left as it was; should the
  read raise, the answer is 500, again with the store unchanged. A record is never
  returned.
\<close>

theorem claim_of_nothing_is_not_found:
  assumes "filter (match sid) (bottles st) = []"
  shows "(\<not> aggregate_raises env \<longrightarrow>
            pick_sample env sid st =
              Inl (HTTPException HTTP_404_NOT_FOUND ''No available bottles to pick.'') \<and>
            pick_random_bottle env sid st = (Inl (HTTPException HTTP_404_NOT_FOUND ''No available bottles to pick.''), st)) \<and>
         (\<exists>e. fst (pick_random_bottle env sid st) = Inl e) \<and>
         snd (pick_random_bottle env sid st) = st"
  by (simp add: pick_random_bottle_def pick_sample_none [OF assms])

theorem claim_of_nothing_is_not_found_witness:
  "filter (match ''u1'') (bottles store_A) = [] \<and>
   pick_random_bottle pick_ok ''u1'' store_A = (Inl (HTTPException HTTP_404_NOT_FOUND ''No available bottles to pick.''), store_A) \<and>
   pick_random_bottle (pick_ok\<lparr>aggregate_raises := True\<rparr>) ''u1'' store_A =
     (Inl (HTTPException HTTP_500_INTERNAL_SERVER_ERROR
            ''Internal server error while picking bottle: store unavailable''), store_A)"
  using claim_of_nothing_is_not_found [of "''u1''" store_A pick_ok]
    claim_of_nothing_is_not_found [of "''u1''" store_A "pick_ok\<lparr>aggregate_raises := True\<rparr>"]
  by (simp add: ex_defs code_defs)

text \<open>
  Claim C6. The marking part of a claim is the update of the document with the sampled
  \<^verbatim>\<open>_id\<close>, setting \<^verbatim>\<open>picked\<close> to true: it depends on the sampled document only through
  its \<^verbatim>\<open>_id\<close>, leaves every document with another \<^verbatim>\<open>_id\<close> as it was, and does not look
  at the flag. Unless the update raises it reports the sampled record as claimed, also when
  that record is already picked, in which case the store does not change.
\<close>

theorem mark_is_unconditional:
  assumes "\<not> update_raises env"
  shows "fst (pick_mark env d st) = Inr (from_mongo_dict d) \<and>
         snd (pick_mark env d st) = snd (update_one False (doc_id d) st) \<and>
         counters (snd (pick_mark env d st)) = counters st \<and>
         length (bottles (snd (pick_mark env d st))) = length (bottles st) \<and>
         (\<forall>i < length (bottles st). doc_id (bottles st ! i) \<noteq> doc_id d \<longrightarrow>
            bottles (snd (pick_mark env d st)) ! i = bottles st ! i) \<and>
         (unique_ids st \<longrightarrow>
            bottles (snd (pick_mark env d st)) =
              map (\<lambda>x. if doc_id x = doc_id d then x\<lparr>picked := True\<rparr> else x) (bottles st)) \<and>
         ((\<forall>x \<in> set (bottles st). doc_id x = doc_id d \<longrightarrow> picked x) \<longrightarrow>
            pick_mark env d st = (Inr (from_mongo_dict d), st))"
  using assms
  by (simp add: pick_mark_result update_one_def set_picked_length set_picked_other
        set_picked_unique set_picked_already unique_ids_def)

theorem mark_is_unconditional_witness:
  "pick_sample pick_ok ''u1'' store_AB = Inr doc_B \<and>
   pick_sample (pick_ok\<lparr>draw := 1\<rparr>) ''u3'' store_AB = Inr doc_B \<and>
   pick_mark pick_ok doc_B store_AB = (Inr (from_mongo_dict doc_B), store_B_claimed) \<and>
   pick_mark (pick_ok\<lparr>draw := 1\<rparr>) doc_B store_B_claimed =
     (Inr (from_mongo_dict doc_B), store_B_claimed)"
  using mark_is_unconditional [of pick_ok doc_B store_AB]
    mark_is_unconditional [of "pick_ok\<lparr>draw := 1\<rparr>" doc_B store_B_claimed]
  by (simp add: ex_defs code_defs)

section \<open>Counting\<close>

text \<open>
  Claim C7. The count request returns the number of records that are not picked: every
  such record is counted once, whoever sent it, and no picked record is counted.
\<close>

theorem count_is_number_of_unclaimed:
  "get_active_bottle_counts False st =
     Inr \<lparr>total_active_bottles = int (length (filter (\<lambda>d. picked d = False) (bottles st)))\<rparr> \<and>
   (unique_ids st \<longrightarrow>
      get_active_bottle_counts False st =
        Inr \<lparr>total_active_bottles = int (card {d \<in> set (bottles st). picked d = False})\<rparr>) \<and>
   get_active_bottle_counts True st =
     Inl (HTTPException HTTP_500_INTERNAL_SERVER_ERROR
           ''Internal server error while getting bottle counts: store unavailable'')"
proof -
  have "distinct (bottles st)" if "unique_ids st"
    using that by (simp add: unique_ids_def distinct_map)
  then have "length (filter (\<lambda>d. picked d = False) (bottles st)) =
        card {d \<in> set (bottles st). picked d = False}" if "unique_ids st"
    using that by (simp add: distinct_length_filter Int_def conj_commute)
  then show ?thesis
    by (simp add: get_active_bottle_counts_def count_documents_def)
qed

theorem count_is_number_of_unclaimed_witness:
  "unique_ids store_B_claimed \<and>
   card {d \<in> set (bottles store_B_claimed). picked d = False} = 1 \<and>
   get_active_bottle_counts False store_B_claimed = Inr \<lparr>total_active_bottles = 1\<rparr>"
  using count_is_number_of_unclaimed [of store_B_claimed]
  by (simp add: ex_defs code_defs)

section \<open>Configuration\<close>

text \<open>
  Claim C8. A process started with one of the three settings missing (unset or empty) does
  not come to serve, whatever the environment does. A missing \<^verbatim>\<open>MONGO_URI\<close> or
  \<^verbatim>\<open>DATABASE_NAME\<close> is found by the check at module load, which raises \<^verbatim>\<open>ValueError\<close>. A
  missing \<^verbatim>\<open>COLLECTION_NAME\<close> passes the module's check and is found in the startup hook, where
  the driver's collection constructor refuses the name and the hook raises. A process that
  serves has all three settings.
\<close>

theorem missing_setting_is_fatal:
  "(py_not (MONGO_URI s) \<or> py_not (DATABASE_NAME s) \<or> py_not (COLLECTION_NAME s) \<longrightarrow>
      (\<exists>e. start_process env s = Inl e)) \<and>
   (py_not (MONGO_URI s) \<longrightarrow>
      start_process env s = Inl (ModuleLoadFailed (ValueError MONGO_URI_not_set))) \<and>
   (\<not> py_not (MONGO_URI s) \<and> py_not (DATABASE_NAME s) \<longrightarrow>
      start_process env s = Inl (ModuleLoadFailed (ValueError DATABASE_NAME_not_set))) \<and>
   (\<not> py_not (MONGO_URI s) \<and> \<not> py_not (DATABASE_NAME s) \<and> py_not (COLLECTION_NAME s) \<longrightarrow>
      module_load s = Inr s \<and>
      (\<exists>e. start_process env s = Inl (StartupFailed (startup_failed e))) \<and>
      (COLLECTION_NAME s = None \<and> \<not> client_raises env \<and> \<not> database_refused env \<longrightarrow>
         start_process env s = Inl (StartupFailed (startup_failed TypeError)))) \<and>
   (\<forall>h. start_process env s = Inr h \<longrightarrow>
      \<not> py_not (MONGO_URI s) \<and> \<not> py_not (DATABASE_NAME s) \<and> \<not> py_not (COLLECTION_NAME s))"
proof -
  have 1: "start_process env s = Inl (ModuleLoadFailed (ValueError MONGO_URI_not_set))"
    if "py_not (MONGO_URI s)"
    using that by (simp add: start_process_def module_load_def)
  have 2: "start_process env s = Inl (ModuleLoadFailed (ValueError DATABASE_NAME_not_set))"
    if "\<not> py_not (MONGO_URI s)" "py_not (DATABASE_NAME s)"
    using that by (simp add: start_process_def module_load_def)
  have 3: "module_load s = Inr s \<and>
      (\<exists>e. start_process env s = Inl (StartupFailed (startup_failed e))) \<and>
      (COLLECTION_NAME s = None \<and> \<not> client_raises env \<and> \<not> database_refused env \<longrightarrow>
         start_process env s = Inl (StartupFailed (startup_failed TypeError)))"
    if a: "\<not> py_not (MONGO_URI s)" "\<not> py_not (DATABASE_NAME s)" "py_not (COLLECTION_NAME s)"
  proof -
    from a have ml: "module_load s = Inr s" by (simp add: module_load_def)
    from startup_db_client_missing [OF a(3), of env] obtain e where
      "startup_db_client env s = Inl (startup_failed e)" by blast
    with ml have "start_process env s = Inl (StartupFailed (startup_failed e))"
      by (simp add: start_process_def)
    moreover have "start_process env s = Inl (StartupFailed (startup_failed TypeError))"
      if "COLLECTION_NAME s = None" "\<not> client_raises env" "\<not> database_refused env"
      using that a(2) ml
      by (auto simp: start_process_def startup_db_client_def Database_def Collection_def
            py_not_def split: option.splits)
    ultimately show ?thesis using ml by blast
  qed
  have 4: "\<exists>e. start_process env s = Inl e"
    if "py_not (MONGO_URI s) \<or> py_not (DATABASE_NAME s) \<or> py_not (COLLECTION_NAME s)"
    using that 1 2 3 by metis
  have 5: "\<not> py_not (MONGO_URI s) \<and> \<not> py_not (DATABASE_NAME s) \<and> \<not> py_not (COLLECTION_NAME s)"
    if "start_process env s = Inr h" for h
    using that 4 by (metis Inl_Inr_False)
  from 1 2 3 4 5 show ?thesis by blast
qed

theorem missing_setting_is_fatal_witness:
  "start_process startup_ok (settings_ok\<lparr>MONGO_URI := None\<rparr>) =
     Inl (ModuleLoadFailed (ValueError MONGO_URI_not_set)) \<and>
   start_process startup_ok (settings_ok\<lparr>DATABASE_NAME := None\<rparr>) =
     Inl (ModuleLoadFailed (ValueError DATABASE_NAME_not_set)) \<and>
   module_load (settings_ok\<lparr>COLLECTION_NAME := None\<rparr>) =
     Inr (settings_ok\<lparr>COLLECTION_NAME := None\<rparr>) \<and>
   start_process startup_ok (settings_ok\<lparr>COLLECTION_NAME := None\<rparr>) =
     Inl (StartupFailed (HTTPException HTTP_500_INTERNAL_SERVER_ERROR
       ''Failed to connect to database on startup: name must be an instance of str'')) \<and>
   start_process startup_ok settings_ok = Inr (''drift'', ''bottles'')"
  using missing_setting_is_fatal [of "settings_ok\<lparr>MONGO_URI := None\<rparr>" startup_ok]
    missing_setting_is_fatal [of "settings_ok\<lparr>DATABASE_NAME := None\<rparr>" startup_ok]
    missing_setting_is_fatal [of "settings_ok\<lparr>COLLECTION_NAME := None\<rparr>" startup_ok]
    missing_setting_is_fatal [of settings_ok startup_ok]
  by (simp add: settings_ok_def startup_ok_def start_process_def module_load_def py_not_def
        startup_db_client_def Database_def Collection_def startup_failed_def)

section \<open>Responses\<close>




end
